theory Spec2Isabelle
  imports Complex_Main "HOL-Library.Char_ord" "HOL-Library.List_Lexorder"
begin

section \<open>Values, rows and cache documents\<close>

text \<open>
  A cache document is the JSON object \<^verbatim>\<open>{'columns': [...], 'data': [[...], ...]}\<close> kept in
  the table \<^verbatim>\<open>query_cache\<close>. A cell of a row is a JSON scalar: \<^verbatim>\<open>null\<close>, an integer or a
  string (JSON floats and booleans are not modelled). Python compares strings by code
  point; \<open>string\<close> with the lexicographic order on \<open>char list\<close> is the same order on
  ASCII text, which is what the fixed-width dates are.
\<close>

datatype cell = CNone | CInt int | CStr string

type_synonym row = "cell list"

datatype error = ValueError | TypeError | IndexError | OverflowError

record cache_object =
  columns :: "string list"
  data :: "row list"

type_synonym store = "string \<rightharpoonup> cache_object"

text \<open>Decimal digits of a natural number, for \<^verbatim>\<open>str(n)\<close>.\<close>

fun digits :: "nat \<Rightarrow> string" where
  "digits n =
     (if n < 10 then [''0123456789'' ! n]
      else digits (n div 10) @ [''0123456789'' ! (n mod 10)])"

declare digits.simps [simp del]

text \<open>\<^verbatim>\<open>str(x)\<close> on a cell.\<close>

fun py_str :: "cell \<Rightarrow> string" where
  "py_str CNone = ''None''"
| "py_str (CInt n) = (if n < 0 then ''-'' @ digits (nat (- n)) else digits (nat n))"
| "py_str (CStr s) = s"

text \<open>Truthiness of a cell, as \<^verbatim>\<open>if x\<close>, \<^verbatim>\<open>x or 0\<close> and \<^verbatim>\<open>not x\<close> read it.\<close>

fun truthy :: "cell \<Rightarrow> bool" where
  "truthy CNone = False"
| "truthy (CInt n) = (n \<noteq> 0)"
| "truthy (CStr s) = (s \<noteq> [])"

text \<open>\<^verbatim>\<open>xs.index(x)\<close>: the first position of \<open>x\<close>; \<open>None\<close> stands for the ValueError.\<close>

fun list_index :: "'a list \<Rightarrow> 'a \<Rightarrow> nat option" where
  "list_index [] x = None"
| "list_index (y # ys) x =
     (if y = x then Some 0
      else (case list_index ys x of None \<Rightarrow> None | Some i \<Rightarrow> Some (Suc i)))"

section \<open>utils/cache_utils.py: the cache document store\<close>

fun generate_cache_key :: "string \<Rightarrow> string \<Rightarrow> error + string" where
  "generate_cache_key query_type entity_id =
     (if query_type = ''query1'' then Inr (''seat_id_'' @ entity_id)
      else if query_type = ''query2'' then Inr (''publisher_id_'' @ entity_id)
      else Inl ValueError)"

text \<open>
  \<^verbatim>\<open>cache_get_unified\<close>: the stored document of an entity, \<open>None\<close> when there is none.
  The database is the map; reading it is taken to succeed.
\<close>

definition cache_get_unified :: "store \<Rightarrow> string \<Rightarrow> string \<Rightarrow> error + cache_object option" where
  "cache_get_unified db query_type entity_id =
     (case generate_cache_key query_type entity_id of
        Inl e \<Rightarrow> Inl e
      | Inr cache_key \<Rightarrow> Inr (db cache_key))"

text \<open>
  \<^verbatim>\<open>validate_data_structure\<close>: no columns is invalid, no rows is valid, and otherwise the
  rows \<^verbatim>\<open>data[:5]\<close> must each have \<^verbatim>\<open>len(columns)\<close> cells. Every row of the model is a
  list, so the \<^verbatim>\<open>isinstance\<close> test always passes.
\<close>

definition validate_data_structure :: "string list \<Rightarrow> row list \<Rightarrow> bool" where
  "validate_data_structure cols rows =
     (if cols = [] then False
      else if rows = [] then True
      else list_all (\<lambda>row. length row = length cols) (take 5 rows))"

text \<open>The key \<^verbatim>\<open>f"{row[date_key_index]}|{row[tag_id_index]}"\<close>.\<close>

definition combo_key :: "nat \<Rightarrow> nat \<Rightarrow> row \<Rightarrow> string" where
  "combo_key date_key_index tag_id_index row =
     py_str (row ! date_key_index) @ ''|'' @ py_str (row ! tag_id_index)"

text \<open>The first loop of \<^verbatim>\<open>cache_set_unified\<close>: the keys of the rows already stored.\<close>

fun existing_keys :: "nat \<Rightarrow> nat \<Rightarrow> row list \<Rightarrow> string set \<Rightarrow> string set" where
  "existing_keys date_key_index tag_id_index [] existing_combinations = existing_combinations"
| "existing_keys date_key_index tag_id_index (row # rows) existing_combinations =
     (if length row > max date_key_index tag_id_index
      then existing_keys date_key_index tag_id_index rows
             (insert (combo_key date_key_index tag_id_index row) existing_combinations)
      else existing_keys date_key_index tag_id_index rows existing_combinations)"

text \<open>
  The second loop: the state is the document's rows, the set of keys and
  \<^verbatim>\<open>new_records_added\<close>. A row too short for the two indices is skipped, so is a row
  dated today or later, so is a row whose key is known.
\<close>

fun add_new_rows ::
  "string \<Rightarrow> nat \<Rightarrow> nat \<Rightarrow> row list \<Rightarrow> row list \<times> string set \<times> nat \<Rightarrow> row list \<times> string set \<times> nat"
where
  "add_new_rows today date_key_index tag_id_index [] st = st"
| "add_new_rows today date_key_index tag_id_index (row # rows) (stored, existing_combinations, new_records_added) =
     (if length row \<le> max date_key_index tag_id_index
      then add_new_rows today date_key_index tag_id_index rows
             (stored, existing_combinations, new_records_added)
      else if py_str (row ! date_key_index) \<ge> today
      then add_new_rows today date_key_index tag_id_index rows
             (stored, existing_combinations, new_records_added)
      else if combo_key date_key_index tag_id_index row \<notin> existing_combinations
      then add_new_rows today date_key_index tag_id_index rows
             (stored @ [row],
              insert (combo_key date_key_index tag_id_index row) existing_combinations,
              new_records_added + 1)
      else add_new_rows today date_key_index tag_id_index rows
             (stored, existing_combinations, new_records_added))"

text \<open>
  \<^verbatim>\<open>cache_set_unified\<close>. \<open>today\<close> is \<^verbatim>\<open>datetime.now().strftime('%Y-%m-%d')\<close> and
  \<open>write_ok\<close> says whether the \<^verbatim>\<open>REPLACE INTO\<close> succeeds; when it does not, the
  function returns False and the stored document is the old one. The result is the
  returned boolean and the database after the call; \<open>Inl\<close> is the ValueError of an
  unknown query type, raised before anything is written. \<^verbatim>\<open>new_records_added\<close> is
  only printed.
\<close>

definition cache_set_unified ::
  "string \<Rightarrow> bool \<Rightarrow> store \<Rightarrow> string \<Rightarrow> string \<Rightarrow> string list \<Rightarrow> row list \<Rightarrow> error + (bool \<times> store)"
where
  "cache_set_unified today write_ok db query_type entity_id cols new_data =
     (case generate_cache_key query_type entity_id of
        Inl e \<Rightarrow> Inl e
      | Inr cache_key \<Rightarrow>
          if \<not> validate_data_structure cols new_data then Inr (False, db)
          else
            let cache_obj =
                  (case db cache_key of
                     None \<Rightarrow> \<lparr>columns = cols, data = []\<rparr>
                   | Some existing_cache \<Rightarrow> existing_cache\<lparr>columns := cols\<rparr>)
            in
            (case list_index cols ''tag_id'' of
               None \<Rightarrow> Inr (False, db)
             | Some tag_id_index \<Rightarrow>
                 (case list_index cols ''date_key'' of
                    None \<Rightarrow> Inr (False, db)
                  | Some date_key_index \<Rightarrow>
                      let existing_combinations =
                            existing_keys date_key_index tag_id_index (data cache_obj) {};
                          (stored, combos, new_records_added) =
                            add_new_rows today date_key_index tag_id_index new_data
                              (data cache_obj, existing_combinations, 0)
                      in
                      if write_ok
                      then Inr (True, db(cache_key \<mapsto> cache_obj\<lparr>data := stored\<rparr>))
                      else Inr (False, db))))"

text \<open>The number of rows of an entity's stored document (0 when there is none).\<close>

definition stored_row_count :: "store \<Rightarrow> string \<Rightarrow> nat" where
  "stored_row_count db cache_key = (case db cache_key of None \<Rightarrow> 0 | Some obj \<Rightarrow> length (data obj))"

text \<open>The rows of an entity's stored document (none when there is no document).\<close>

definition stored_rows :: "store \<Rightarrow> string \<Rightarrow> row list" where
  "stored_rows db cache_key = (case db cache_key of None \<Rightarrow> [] | Some obj \<Rightarrow> data obj)"


subsection \<open>Sample documents\<close>

definition example_columns :: "string list" where
  "example_columns = [''date_key'', ''tag_id'', ''total_impressions'']"

definition example_batch :: "row list" where
  "example_batch =
     [[CStr ''2024-01-08'', CStr ''T1'', CInt 5000],
      [CStr ''2024-01-09'', CStr ''T1'', CInt 4000]]"

definition example_db :: store where
  "example_db = Map.empty(''seat_id_42'' \<mapsto> \<lparr>columns = example_columns, data = example_batch\<rparr>)"

definition wide_batch :: "row list" where
  "wide_batch =
     [[CStr ''2024-01-01'', CStr ''T1''],
      [CStr ''2024-01-02'', CStr ''T1''],
      [CStr ''2024-01-03'', CStr ''T1''],
      [CStr ''2024-01-04'', CStr ''T1''],
      [CStr ''2024-01-05'', CStr ''T1''],
      [CStr ''2024-01-06'', CStr ''T1'', CInt 7]]"



section \<open>utils/superset_utils.py: reading a date range from a document\<close>

text \<open>
  \<^verbatim>\<open>filter_cache_data_by_date_range\<close>. The body is one \<^verbatim>\<open>try\<close> whose handler,
  \<^verbatim>\<open>except (ValueError, IndexError)\<close>, returns \<^verbatim>\<open>data\<close> as it came in. The ValueError
  is raised by \<^verbatim>\<open>columns.index('date_key')\<close> when the column is missing and by
  \<^verbatim>\<open>min(unique_dates)\<close> when there are no rows; the IndexError by \<^verbatim>\<open>row[date_key_index]\<close>
  on a row that is too short. Otherwise the rows whose date text lies in
  \<^verbatim>\<open>[date_from, date_to]\<close> are returned.
\<close>

definition filter_cache_data_by_date_range ::
  "string list \<Rightarrow> row list \<Rightarrow> string \<Rightarrow> string \<Rightarrow> row list"
where
  "filter_cache_data_by_date_range cols rows date_from date_to =
     (case list_index cols ''date_key'' of
        None \<Rightarrow> rows
      | Some date_key_index \<Rightarrow>
          if list_ex (\<lambda>row. length row \<le> date_key_index) rows then rows
          else if rows = [] then rows
          else filter (\<lambda>row. date_from \<le> py_str (row ! date_key_index)
                            \<and> py_str (row ! date_key_index) \<le> date_to) rows)"

section \<open>Calendar dates\<close>

text \<open>
  The code works on \<^verbatim>\<open>datetime\<close> values made by \<^verbatim>\<open>strptime(s, '%Y-%m-%d')\<close>, which are
  days at midnight. A day is modelled by its proleptic Gregorian ordinal (day 1 is
  0001-01-01, the last day is 9999-12-31), computed as the standard library computes it
  (\<^verbatim>\<open>_ymd2ord\<close>, \<^verbatim>\<open>_ord2ymd\<close>). Subtracting two days gives \<^verbatim>\<open>timedelta.days\<close>; adding a
  \<^verbatim>\<open>timedelta\<close> that leaves the range raises OverflowError. \<^verbatim>\<open>strptime\<close> accepts four
  year digits, then a month and a day with or without a leading zero, and raises
  ValueError on anything else and on a day the month does not have. \<^verbatim>\<open>strftime\<close> prints
  the year as the C library's \<^verbatim>\<open>%Y\<close> does, in decimal without padding (a year below 1000
  has fewer than four digits), and the month and the day with two digits.
\<close>

definition is_leap :: "int \<Rightarrow> bool" where
  "is_leap year = (year mod 4 = 0 \<and> (year mod 100 \<noteq> 0 \<or> year mod 400 = 0))"

definition days_in_month :: "int \<Rightarrow> int \<Rightarrow> int" where
  "days_in_month year month =
     (if month = 2 \<and> is_leap year then 29
      else [0, 31, 28, 31, 30, 31, 30, 31, 31, 30, 31, 30, 31] ! nat month)"

definition days_before_year :: "int \<Rightarrow> int" where
  "days_before_year year =
     (let y = year - 1 in y * 365 + y div 4 - y div 100 + y div 400)"

definition days_before_month :: "int \<Rightarrow> int \<Rightarrow> int" where
  "days_before_month year month =
     [0, 0, 31, 59, 90, 120, 151, 181, 212, 243, 273, 304, 334] ! nat month
       + (if month > 2 \<and> is_leap year then 1 else 0)"

definition ymd2ord :: "int \<Rightarrow> int \<Rightarrow> int \<Rightarrow> int" where
  "ymd2ord year month day = days_before_year year + days_before_month year month + day"

definition ord2ymd :: "int \<Rightarrow> int \<times> int \<times> int" where
  "ord2ymd ordinal =
     (let n = ordinal - 1;
          n400 = n div 146097; n = n mod 146097;
          year = n400 * 400 + 1;
          n100 = n div 36524; n = n mod 36524;
          n4 = n div 1461; n = n mod 1461;
          n1 = n div 365; n = n mod 365;
          year = year + n100 * 100 + n4 * 4 + n1
      in if n1 = 4 \<or> n100 = 4 then (year - 1, 12, 31)
         else
           let leapyear = (n1 = 3 \<and> (n4 \<noteq> 24 \<or> n100 = 3));
               month = (n + 50) div 32;
               preceding =
                 [0, 0, 31, 59, 90, 120, 151, 181, 212, 243, 273, 304, 334] ! nat month
                   + (if month > 2 \<and> leapyear then 1 else 0)
           in if preceding > n
              then
                let month = month - 1;
                    preceding = preceding
                      - ([0, 31, 28, 31, 30, 31, 30, 31, 31, 30, 31, 30, 31] ! nat month
                         + (if month = 2 \<and> leapyear then 1 else 0))
                in (year, month, n - preceding + 1)
              else (year, month, n - preceding + 1))"

definition max_ordinal :: int where
  "max_ordinal = 3652059"

definition is_digit :: "char \<Rightarrow> bool" where
  "is_digit c = (c \<in> set ''0123456789'')"

definition digit_val :: "char \<Rightarrow> int" where
  "digit_val c = int (of_char c) - 48"

fun parse_month :: "string \<Rightarrow> int option" where
  "parse_month [a, b] =
     (if a = CHR ''1'' \<and> b \<in> set ''012'' then Some (10 + digit_val b)
      else if a = CHR ''0'' \<and> b \<in> set ''123456789'' then Some (digit_val b)
      else None)"
| "parse_month [a] = (if a \<in> set ''123456789'' then Some (digit_val a) else None)"
| "parse_month s = None"

fun parse_day :: "string \<Rightarrow> int option" where
  "parse_day [a, b] =
     (if a = CHR ''3'' \<and> b \<in> set ''01'' then Some (30 + digit_val b)
      else if a \<in> set ''12'' \<and> is_digit b then Some (10 * digit_val a + digit_val b)
      else if a = CHR ''0'' \<and> b \<in> set ''123456789'' then Some (digit_val b)
      else if a = CHR '' '' \<and> b \<in> set ''123456789'' then Some (digit_val b)
      else None)"
| "parse_day [a] = (if a \<in> set ''123456789'' then Some (digit_val a) else None)"
| "parse_day s = None"

fun parse_ymd :: "string \<Rightarrow> (int \<times> int \<times> int) option" where
  "parse_ymd (y1 # y2 # y3 # y4 # dash # rest) =
     (if is_digit y1 \<and> is_digit y2 \<and> is_digit y3 \<and> is_digit y4 \<and> dash = CHR ''-''
      then
        let year = 1000 * digit_val y1 + 100 * digit_val y2 + 10 * digit_val y3 + digit_val y4;
            mtext = takeWhile (\<lambda>c. c \<noteq> CHR ''-'') rest;
            dtext = drop (Suc (length mtext)) rest
        in if length mtext < length rest
           then (case parse_month mtext of
                   None \<Rightarrow> None
                 | Some month \<Rightarrow>
                     (case parse_day dtext of
                        None \<Rightarrow> None
                      | Some day \<Rightarrow> Some (year, month, day)))
           else None
      else None)"
| "parse_ymd s = None"

definition strptime :: "string \<Rightarrow> error + int" where
  "strptime s =
     (case parse_ymd s of
        None \<Rightarrow> Inl ValueError
      | Some (year, month, day) \<Rightarrow>
          if year < 1 \<or> day > days_in_month year month then Inl ValueError
          else Inr (ymd2ord year month day))"

definition pad2 :: "int \<Rightarrow> string" where
  "pad2 n = (if n < 10 then ''0'' @ digits (nat n) else digits (nat n))"

definition strftime :: "int \<Rightarrow> string" where
  "strftime ordinal =
     (case ord2ymd ordinal of
        (year, month, day) \<Rightarrow> digits (nat year) @ ''-'' @ pad2 month @ ''-'' @ pad2 day)"

definition add_days :: "int \<Rightarrow> int \<Rightarrow> error + int" where
  "add_days dt k = (if 1 \<le> dt + k \<and> dt + k \<le> max_ordinal then Inr (dt + k) else Inl OverflowError)"


section \<open>utils/cache_utils.py: chunking the missing dates\<close>

text \<open>
  The \<^verbatim>\<open>while current <= end\<close> loop of \<^verbatim>\<open>get_date_ranges_to_query\<close>: each round closes a
  chunk of at most 14 days and moves \<^verbatim>\<open>current\<close> to the day after it.
\<close>

function chunk_loop :: "int \<Rightarrow> int \<Rightarrow> (string \<times> string) list \<Rightarrow> error + (string \<times> string) list" where
  "chunk_loop current end_dt ranges =
     (if current \<le> end_dt
      then (case add_days current 13 of
              Inl e \<Rightarrow> Inl e
            | Inr later \<Rightarrow>
                let chunk_end = min later end_dt
                in (case add_days chunk_end 1 of
                      Inl e \<Rightarrow> Inl e
                    | Inr next_dt \<Rightarrow>
                        chunk_loop next_dt end_dt
                          (ranges @ [(strftime current, strftime chunk_end)])))
      else Inr ranges)"
  by pat_completeness auto
termination
  by (relation "measure (\<lambda>(current, end_dt, ranges). nat (end_dt - current + 1))")
     (auto simp: add_days_def split: if_splits)

declare chunk_loop.simps [simp del]

text \<open>
  \<^verbatim>\<open>get_date_ranges_to_query\<close>: a range with \<^verbatim>\<open>(end - start).days <= 21\<close> is returned as it
  came in, a longer one is cut by the loop.
\<close>

definition get_date_ranges_to_query :: "string \<Rightarrow> string \<Rightarrow> error + (string \<times> string) list" where
  "get_date_ranges_to_query date_from date_to =
     (case strptime date_from of
        Inl e \<Rightarrow> Inl e
      | Inr start \<Rightarrow>
          (case strptime date_to of
             Inl e \<Rightarrow> Inl e
           | Inr end_dt \<Rightarrow>
               if end_dt - start \<le> 21 then Inr [(date_from, date_to)]
               else chunk_loop start end_dt []))"


text \<open>
  \<^verbatim>\<open>get_date_ranges_to_query_from_dates\<close>: the first loop groups the sorted missing dates
  into runs of consecutive days, the second chunks every run.
\<close>

fun group_runs ::
  "string \<Rightarrow> string \<Rightarrow> string \<Rightarrow> string list \<Rightarrow> (string \<times> string) list \<Rightarrow> error + (string \<times> string) list"
where
  "group_runs start_date end_date prev_date [] ranges = Inr (ranges @ [(start_date, end_date)])"
| "group_runs start_date end_date prev_date (current_date # rest) ranges =
     (case strptime current_date of
        Inl e \<Rightarrow> Inl e
      | Inr current_dt \<Rightarrow>
          (case strptime prev_date of
             Inl e \<Rightarrow> Inl e
           | Inr prev_dt \<Rightarrow>
               if current_dt - prev_dt = 1
               then group_runs start_date current_date current_date rest ranges
               else group_runs current_date current_date current_date rest
                      (ranges @ [(start_date, end_date)])))"

fun chunk_ranges :: "(string \<times> string) list \<Rightarrow> (string \<times> string) list \<Rightarrow> error + (string \<times> string) list" where
  "chunk_ranges [] chunked_ranges = Inr chunked_ranges"
| "chunk_ranges ((range_start, range_end) # ranges) chunked_ranges =
     (case get_date_ranges_to_query range_start range_end of
        Inl e \<Rightarrow> Inl e
      | Inr chunks \<Rightarrow> chunk_ranges ranges (chunked_ranges @ chunks))"

definition get_date_ranges_to_query_from_dates :: "string list \<Rightarrow> error + (string \<times> string) list" where
  "get_date_ranges_to_query_from_dates missing_dates =
     (case missing_dates of
        [] \<Rightarrow> Inr []
      | first_date # rest \<Rightarrow>
          (case group_runs first_date first_date first_date rest [] of
             Inl e \<Rightarrow> Inl e
           | Inr ranges \<Rightarrow> chunk_ranges ranges []))"


section \<open>Properties of the cache document store\<close>

lemma cache_object_upd:
  "(a::cache_object)\<lparr>columns := c, data := d\<rparr> = \<lparr>columns = c, data = d\<rparr>"
  by (cases a) simp

lemma existing_keys_eq:
  "existing_keys di ti rows S = S \<union> combo_key di ti ` {r \<in> set rows. length r > max di ti}"
  by (induction rows arbitrary: S) auto

text \<open>
  What the second loop does to its state: it appends some of the batch's rows, each wide
  enough and dated before today, records their keys and counts them; afterwards the key
  of every such row of the batch is known.
\<close>

lemma add_new_rows_shape:
  "\<exists>added. add_new_rows today di ti rows (stored, S, n) =
      (stored @ added, S \<union> combo_key di ti ` set added, n + length added)
    \<and> set added \<subseteq> set rows
    \<and> (\<forall>r\<in>set added. length r > max di ti \<and> py_str (r ! di) < today)
    \<and> (\<forall>r\<in>set rows. length r > max di ti \<and> py_str (r ! di) < today
           \<longrightarrow> combo_key di ti r \<in> S \<union> combo_key di ti ` set added)"
proof (induction rows arbitrary: stored S n)
  case Nil
  show ?case by simp
next
  case (Cons row rows)
  show ?case
  proof (cases "length row \<le> max di ti \<or> py_str (row ! di) \<ge> today \<or> combo_key di ti row \<in> S")
    case True
    from Cons.IH[of stored S n] obtain added where a:
      "add_new_rows today di ti rows (stored, S, n) =
      (stored @ added, S \<union> combo_key di ti ` set added, n + length added)"
      "set added \<subseteq> set rows"
      "(\<forall>r\<in>set added. length r > max di ti \<and> py_str (r ! di) < today)"
      "(\<forall>r\<in>set rows. length r > max di ti \<and> py_str (r ! di) < today
           \<longrightarrow> combo_key di ti r \<in> S \<union> combo_key di ti ` set added)" by blast
    from True a show ?thesis
      by (intro exI[of _ added]) (auto simp: not_le)
  next
    case False
    let ?k = "combo_key di ti row"
    from Cons.IH[of "stored @ [row]" "insert ?k S" "n + 1"] obtain added where a:
      "add_new_rows today di ti rows (stored @ [row], insert ?k S, n + 1) =
      ((stored @ [row]) @ added, insert ?k S \<union> combo_key di ti ` set added, n + 1 + length added)"
      "set added \<subseteq> set rows"
      "(\<forall>r\<in>set added. length r > max di ti \<and> py_str (r ! di) < today)"
      "(\<forall>r\<in>set rows. length r > max di ti \<and> py_str (r ! di) < today
           \<longrightarrow> combo_key di ti r \<in> insert ?k S \<union> combo_key di ti ` set added)" by blast
    from False a show ?thesis
      by (intro exI[of _ "row # added"]) (auto simp: not_le)
  qed
qed

lemma add_new_rows_noop:
  "(\<forall>r\<in>set rows. length r > max di ti \<and> py_str (r ! di) < today \<longrightarrow> combo_key di ti r \<in> S)
   \<Longrightarrow> add_new_rows today di ti rows (stored, S, n) = (stored, S, n)"
  by (induction rows) (auto simp: not_le)

text \<open>
  The rows the second loop appends, exactly: their keys are pairwise different, and they
  are the keys of the batch's rows that are wide enough and dated before today, less the
  keys known before the loop. A batch of such rows with new, pairwise different keys is
  appended whole.
\<close>

lemma add_new_rows_added:
  "\<exists>added. add_new_rows today di ti rows (stored, S, n) =
      (stored @ added, S \<union> combo_key di ti ` set added, n + length added)
    \<and> distinct (map (combo_key di ti) added)
    \<and> combo_key di ti ` set added =
        combo_key di ti ` {r \<in> set rows. length r > max di ti \<and> py_str (r ! di) < today} - S"
proof (induction rows arbitrary: stored S n)
  case Nil
  show ?case by simp
next
  case (Cons row rows)
  let ?k = "combo_key di ti row"
  let ?E = "\<lambda>rows. combo_key di ti ` {r \<in> set rows. length r > max di ti \<and> py_str (r ! di) < today}"
  show ?case
  proof (cases "length row > max di ti \<and> py_str (row ! di) < today")
    case elig: True
    then have E: "?E (row # rows) = insert ?k (?E rows)" by auto
    from elig have ne: "\<not> today \<le> py_str (row ! di)" "\<not> length row \<le> max di ti"
      by auto
    show ?thesis
    proof (cases "?k \<in> S")
      case True
      from Cons.IH[of stored S n] obtain added where a:
        "add_new_rows today di ti rows (stored, S, n) =
          (stored @ added, S \<union> combo_key di ti ` set added, n + length added)"
        "distinct (map (combo_key di ti) added)"
        "combo_key di ti ` set added = ?E rows - S"
        by blast
      have eq: "add_new_rows today di ti (row # rows) (stored, S, n) =
          (stored @ added, S \<union> combo_key di ti ` set added, n + length added)"
        using ne True a(1) by simp
      have keys: "combo_key di ti ` set added = ?E (row # rows) - S"
        unfolding E a(3) using True by blast
      from eq a(2) keys show ?thesis by blast
    next
      case False
      from Cons.IH[of "stored @ [row]" "insert ?k S" "n + 1"] obtain added where a:
        "add_new_rows today di ti rows (stored @ [row], insert ?k S, n + 1) =
          ((stored @ [row]) @ added, insert ?k S \<union> combo_key di ti ` set added, n + 1 + length added)"
        "distinct (map (combo_key di ti) added)"
        "combo_key di ti ` set added = ?E rows - insert ?k S"
        by blast
      from a(3) have notin: "?k \<notin> combo_key di ti ` set added" by blast
      have keys: "combo_key di ti ` set (row # added) = ?E (row # rows) - S"
      proof -
        have "combo_key di ti ` set (row # added) = insert ?k (combo_key di ti ` set added)"
          by simp
        also have "\<dots> = insert ?k (?E rows - insert ?k S)" unfolding a(3) ..
        also have "\<dots> = insert ?k (?E rows) - S" using False by blast
        finally show ?thesis unfolding E .
      qed
      have eq: "add_new_rows today di ti (row # rows) (stored, S, n) =
          (stored @ row # added, S \<union> combo_key di ti ` set (row # added), n + length (row # added))"
        using ne False a(1) by simp
      have d: "distinct (map (combo_key di ti) (row # added))"
        using a(2) notin by simp
      from eq d keys show ?thesis by blast
    qed
  next
    case False
    then have E: "?E (row # rows) = ?E rows" by auto
    from Cons.IH[of stored S n] obtain added where a:
      "add_new_rows today di ti rows (stored, S, n) =
        (stored @ added, S \<union> combo_key di ti ` set added, n + length added)"
      "distinct (map (combo_key di ti) added)"
      "combo_key di ti ` set added = ?E rows - S"
      by blast
    have eq: "add_new_rows today di ti (row # rows) (stored, S, n) =
        (stored @ added, S \<union> combo_key di ti ` set added, n + length added)"
      using False a(1) by (auto simp: not_le not_less)
    have keys: "combo_key di ti ` set added = ?E (row # rows) - S"
      unfolding E a(3) ..
    from eq a(2) keys show ?thesis by blast
  qed
qed

lemma add_new_rows_all:
  "(\<forall>r\<in>set rows. length r > max di ti \<and> py_str (r ! di) < today \<and> combo_key di ti r \<notin> S)
   \<Longrightarrow> distinct (map (combo_key di ti) rows)
   \<Longrightarrow> add_new_rows today di ti rows (stored, S, n) =
        (stored @ rows, S \<union> combo_key di ti ` set rows, n + length rows)"
proof (induction rows arbitrary: stored S n)
  case Nil
  show ?case by simp
next
  case (Cons row rows)
  have "add_new_rows today di ti rows (stored @ [row], insert (combo_key di ti row) S, n + 1) =
        ((stored @ [row]) @ rows, insert (combo_key di ti row) S \<union> combo_key di ti ` set rows, n + 1 + length rows)"
    using Cons.prems by (intro Cons.IH) (auto simp: image_iff)
  moreover have "length row > max di ti" "py_str (row ! di) < today" "combo_key di ti row \<notin> S"
    using Cons.prems by auto
  ultimately show ?case by (auto simp: not_le)
qed

lemma cache_set_unified_unfold:
  assumes k: "generate_cache_key qt eid = Inr key"
    and v: "validate_data_structure cols nd"
    and ti: "list_index cols ''tag_id'' = Some ti"
    and di: "list_index cols ''date_key'' = Some di"
  shows "\<exists>added.
     cache_set_unified today w db qt eid cols nd =
       Inr (w, if w then db(key \<mapsto> \<lparr>columns = cols, data = (case db key of None \<Rightarrow> [] | Some obj \<Rightarrow> data obj) @ added\<rparr>) else db)
     \<and> add_new_rows today di ti nd
          ((case db key of None \<Rightarrow> [] | Some obj \<Rightarrow> data obj),
           existing_keys di ti (case db key of None \<Rightarrow> [] | Some obj \<Rightarrow> data obj) {}, 0)
        = ((case db key of None \<Rightarrow> [] | Some obj \<Rightarrow> data obj) @ added,
           existing_keys di ti (case db key of None \<Rightarrow> [] | Some obj \<Rightarrow> data obj) {} \<union> combo_key di ti ` set added,
           length added)
     \<and> set added \<subseteq> set nd
     \<and> (\<forall>r\<in>set added. length r > max di ti \<and> py_str (r ! di) < today)
     \<and> (\<forall>r\<in>set nd. length r > max di ti \<and> py_str (r ! di) < today
           \<longrightarrow> combo_key di ti r \<in> existing_keys di ti (case db key of None \<Rightarrow> [] | Some obj \<Rightarrow> data obj) {} \<union> combo_key di ti ` set added)"
proof -
  let ?old = "case db key of None \<Rightarrow> [] | Some obj \<Rightarrow> data obj"
  from add_new_rows_shape[of today di ti nd ?old "existing_keys di ti ?old {}" 0]
  obtain added where a:
    "add_new_rows today di ti nd (?old, existing_keys di ti ?old {}, 0) =
      (?old @ added, existing_keys di ti ?old {} \<union> combo_key di ti ` set added, 0 + length added)"
    "set added \<subseteq> set nd"
    "\<forall>r\<in>set added. length r > max di ti \<and> py_str (r ! di) < today"
    "\<forall>r\<in>set nd. length r > max di ti \<and> py_str (r ! di) < today
           \<longrightarrow> combo_key di ti r \<in> existing_keys di ti ?old {} \<union> combo_key di ti ` set added"
    by blast
  have "cache_set_unified today w db qt eid cols nd =
       Inr (w, if w then db(key \<mapsto> \<lparr>columns = cols, data = ?old @ added\<rparr>) else db)"
    using k v ti di a(1)
    by (cases "db key") (simp_all add: cache_set_unified_def Let_def cache_object_upd del: generate_cache_key.simps)
  with a show ?thesis by (intro exI[of _ added]) simp
qed

lemma cache_set_unified_cases:
  assumes k: "generate_cache_key qt eid = Inr key"
  shows "cache_set_unified today w db qt eid cols nd = Inr (False, db)
     \<or> (\<exists>ti di added. validate_data_structure cols nd
          \<and> list_index cols ''tag_id'' = Some ti \<and> list_index cols ''date_key'' = Some di
          \<and> cache_set_unified today w db qt eid cols nd =
             Inr (w, if w then db(key \<mapsto> \<lparr>columns = cols, data = (case db key of None \<Rightarrow> [] | Some obj \<Rightarrow> data obj) @ added\<rparr>) else db)
          \<and> set added \<subseteq> set nd
          \<and> (\<forall>r\<in>set added. length r > max di ti \<and> py_str (r ! di) < today)
          \<and> (\<forall>r\<in>set nd. length r > max di ti \<and> py_str (r ! di) < today
           \<longrightarrow> combo_key di ti r \<in> existing_keys di ti (case db key of None \<Rightarrow> [] | Some obj \<Rightarrow> data obj) {} \<union> combo_key di ti ` set added))"
proof (cases "validate_data_structure cols nd")
  case False
  with k show ?thesis by (simp add: cache_set_unified_def del: generate_cache_key.simps)
next
  case v: True
  show ?thesis
  proof (cases "list_index cols ''tag_id''")
    case None
    with k v show ?thesis by (simp add: cache_set_unified_def Let_def del: generate_cache_key.simps)
  next
    case ti: (Some ti)
    show ?thesis
    proof (cases "list_index cols ''date_key''")
      case None
      with k v ti show ?thesis by (simp add: cache_set_unified_def Let_def del: generate_cache_key.simps)
    next
      case di: (Some di)
      from cache_set_unified_unfold[OF k v ti di, of today w db] v ti di show ?thesis by blast
    qed
  qed
qed


lemmas example_defs = example_columns_def example_batch_def example_db_def

lemma example_first_merge:
  "cache_set_unified ''2024-01-10'' True Map.empty ''query1'' ''42'' example_columns example_batch
     = Inr (True, example_db)"
  by (simp add: example_defs cache_set_unified_def validate_data_structure_def combo_key_def Let_def)

lemma example_second_merge:
  "cache_set_unified ''2024-01-10'' True example_db ''query1'' ''42'' example_columns example_batch
     = Inr (True, example_db)"
  by (simp add: example_defs cache_set_unified_def validate_data_structure_def combo_key_def Let_def)

subsection \<open>C1: what the merge returns\<close>

text \<open>
  C1 says the merge returns the count of rows appended. It does not: the merge of two
  new rows into an empty store returns True and stores two rows, and the merge of the
  same batch again returns True as well and stores nothing new. One returned value
  stands for two appended rows and for none.
\<close>

theorem cache_set_unified_returns_flag_not_count:
  "cache_set_unified ''2024-01-10'' True Map.empty ''query1'' ''42'' example_columns example_batch
     = Inr (True, example_db)
   \<and> stored_row_count Map.empty ''seat_id_42'' = 0
   \<and> stored_row_count example_db ''seat_id_42'' = 2
   \<and> cache_set_unified ''2024-01-10'' True example_db ''query1'' ''42'' example_columns example_batch
     = Inr (True, example_db)"
  by (simp add: example_first_merge example_second_merge) (simp add: stored_row_count_def example_defs)

text \<open>
  C1, amended: for every merge call with valid structure (a known query type, a batch
  that passes validation, columns holding \<^verbatim>\<open>tag_id\<close> and \<^verbatim>\<open>date_key\<close>) the merge returns
  the success flag of the write and not a count. The flag is True exactly when the
  document is written, and the document written is the stored rows followed by the rows
  \<open>added\<close>, also when nothing is added; when the write fails the store is unchanged.
  The count of rows appended is the loop's \<^verbatim>\<open>new_records_added\<close>, which is only printed:
  it is \<open>length added\<close>, the number of different new keys among the batch's rows that are
  wide enough and dated before today. It is 0 for a batch whose keys are all known
  (\<open>added\<close> is empty), and \<open>n\<close> for a batch of \<open>n\<close> past-dated rows with new, pairwise
  different keys (\<open>added\<close> is the batch).
\<close>

theorem cache_set_unified_returns_write_flag:
  assumes "generate_cache_key query_type entity_id = Inr cache_key"
    and "validate_data_structure cols new_data"
    and "list_index cols ''tag_id'' = Some tag_id_index"
    and "list_index cols ''date_key'' = Some date_key_index"
  shows "\<exists>added.
     cache_set_unified today write_ok db query_type entity_id cols new_data =
       Inr (write_ok,
            if write_ok
            then db(cache_key \<mapsto> \<lparr>columns = cols, data = stored_rows db cache_key @ added\<rparr>)
            else db)
     \<and> add_new_rows today date_key_index tag_id_index new_data
          (stored_rows db cache_key,
           existing_keys date_key_index tag_id_index (stored_rows db cache_key) {}, 0)
         = (stored_rows db cache_key @ added,
            existing_keys date_key_index tag_id_index (stored_rows db cache_key) {}
              \<union> combo_key date_key_index tag_id_index ` set added,
            length added)
     \<and> length added =
         card (combo_key date_key_index tag_id_index `
                 {r \<in> set new_data. length r > max date_key_index tag_id_index
                     \<and> py_str (r ! date_key_index) < today}
               - existing_keys date_key_index tag_id_index (stored_rows db cache_key) {})
     \<and> ((\<forall>r\<in>set new_data. length r > max date_key_index tag_id_index
             \<and> py_str (r ! date_key_index) < today
           \<longrightarrow> combo_key date_key_index tag_id_index r
                 \<in> existing_keys date_key_index tag_id_index (stored_rows db cache_key) {})
          \<longrightarrow> added = [])
     \<and> ((\<forall>r\<in>set new_data. length r > max date_key_index tag_id_index
             \<and> py_str (r ! date_key_index) < today
             \<and> combo_key date_key_index tag_id_index r
                 \<notin> existing_keys date_key_index tag_id_index (stored_rows db cache_key) {})
          \<and> distinct (map (combo_key date_key_index tag_id_index) new_data)
          \<longrightarrow> added = new_data)"
proof -
  let ?old = "stored_rows db cache_key"
  let ?S = "existing_keys date_key_index tag_id_index ?old {}"
  let ?key = "combo_key date_key_index tag_id_index"
  from add_new_rows_added[of today date_key_index tag_id_index new_data ?old ?S 0]
  obtain added where a:
    "add_new_rows today date_key_index tag_id_index new_data (?old, ?S, 0) =
      (?old @ added, ?S \<union> ?key ` set added, 0 + length added)"
    "distinct (map ?key added)"
    "?key ` set added =
        ?key ` {r \<in> set new_data. length r > max date_key_index tag_id_index
                   \<and> py_str (r ! date_key_index) < today} - ?S"
    by blast
  have r: "cache_set_unified today write_ok db query_type entity_id cols new_data =
       Inr (write_ok, if write_ok then db(cache_key \<mapsto> \<lparr>columns = cols, data = ?old @ added\<rparr>) else db)"
    using assms a(1)
    by (cases "db cache_key")
       (simp_all add: cache_set_unified_def stored_rows_def Let_def cache_object_upd
          del: generate_cache_key.simps)
  have c: "length added =
         card (?key ` {r \<in> set new_data. length r > max date_key_index tag_id_index
                     \<and> py_str (r ! date_key_index) < today} - ?S)"
    using distinct_card[OF a(2)] a(3) by simp
  have z: "(\<forall>r\<in>set new_data. length r > max date_key_index tag_id_index
             \<and> py_str (r ! date_key_index) < today \<longrightarrow> ?key r \<in> ?S) \<longrightarrow> added = []"
  proof
    assume "\<forall>r\<in>set new_data. length r > max date_key_index tag_id_index
             \<and> py_str (r ! date_key_index) < today \<longrightarrow> ?key r \<in> ?S"
    then have "?key ` set added = {}" unfolding a(3) by blast
    then show "added = []" by simp
  qed
  have n: "(\<forall>r\<in>set new_data. length r > max date_key_index tag_id_index
             \<and> py_str (r ! date_key_index) < today \<and> ?key r \<notin> ?S)
          \<and> distinct (map ?key new_data) \<longrightarrow> added = new_data"
  proof
    assume h: "(\<forall>r\<in>set new_data. length r > max date_key_index tag_id_index
             \<and> py_str (r ! date_key_index) < today \<and> ?key r \<notin> ?S)
          \<and> distinct (map ?key new_data)"
    from add_new_rows_all[of new_data date_key_index tag_id_index today ?S ?old 0] h
    have "add_new_rows today date_key_index tag_id_index new_data (?old, ?S, 0) =
        (?old @ new_data, ?S \<union> ?key ` set new_data, 0 + length new_data)" by blast
    with a(1) show "added = new_data" by simp
  qed
  have l: "add_new_rows today date_key_index tag_id_index new_data (?old, ?S, 0) =
      (?old @ added, ?S \<union> ?key ` set added, length added)"
    using a(1) by simp
  show ?thesis by (intro exI[of _ added] conjI; fact)
qed

text \<open>
  The amended C1 at the sample batch: merged into the empty store it returns True, the
  loop counts 2 and the two rows are stored; merged again it returns True, the loop counts
  0 and the document is written as it was.
\<close>

theorem cache_set_unified_returns_write_flag_witness:
  "generate_cache_key ''query1'' ''42'' = Inr ''seat_id_42''
   \<and> validate_data_structure example_columns example_batch
   \<and> list_index example_columns ''tag_id'' = Some 1
   \<and> list_index example_columns ''date_key'' = Some 0
   \<and> cache_set_unified ''2024-01-10'' True Map.empty ''query1'' ''42'' example_columns example_batch
       = Inr (True, example_db)
   \<and> add_new_rows ''2024-01-10'' 0 1 example_batch ([], {}, 0)
       = (example_batch, {''2024-01-08|T1'', ''2024-01-09|T1''}, 2)
   \<and> cache_set_unified ''2024-01-10'' True example_db ''query1'' ''42'' example_columns example_batch
       = Inr (True, example_db)
   \<and> add_new_rows ''2024-01-10'' 0 1 example_batch
        (example_batch, {''2024-01-08|T1'', ''2024-01-09|T1''}, 0)
       = (example_batch, {''2024-01-08|T1'', ''2024-01-09|T1''}, 0)"
proof -
  have h1: "generate_cache_key ''query1'' ''42'' = Inr ''seat_id_42''" by simp
  have h2: "validate_data_structure example_columns example_batch"
    by (simp add: validate_data_structure_def example_defs)
  have h3: "list_index example_columns ''tag_id'' = Some 1" by (simp add: example_defs)
  have h4: "list_index example_columns ''date_key'' = Some 0" by (simp add: example_defs)
  have s0: "stored_rows Map.empty ''seat_id_42'' = []" by (simp add: stored_rows_def)
  have s1: "stored_rows example_db ''seat_id_42'' = example_batch"
    by (simp add: stored_rows_def example_db_def)
  have k0: "existing_keys 0 1 [] {} = {}" by simp
  have k1: "existing_keys 0 1 example_batch {} = {''2024-01-08|T1'', ''2024-01-09|T1''}"
    by (simp add: example_defs combo_key_def insert_commute)
  have ks: "combo_key 0 1 ` set example_batch = {''2024-01-08|T1'', ''2024-01-09|T1''}"
    by (simp add: example_defs combo_key_def insert_commute)
  have len: "length example_batch = 2" by (simp add: example_defs)
  have novel: "(\<forall>r\<in>set example_batch. length r > max 0 1 \<and> py_str (r ! 0) < ''2024-01-10''
             \<and> combo_key 0 1 r \<notin> existing_keys 0 1 (stored_rows Map.empty ''seat_id_42'') {})
          \<and> distinct (map (combo_key 0 1) example_batch)"
    unfolding s0 k0 by (simp add: example_defs combo_key_def)
  have dup: "\<forall>r\<in>set example_batch. length r > max 0 1 \<and> py_str (r ! 0) < ''2024-01-10''
           \<longrightarrow> combo_key 0 1 r \<in> existing_keys 0 1 (stored_rows example_db ''seat_id_42'') {}"
    unfolding s1 k1 by (simp add: example_defs combo_key_def)
  from cache_set_unified_returns_write_flag[OF h1 h2 h3 h4, of "''2024-01-10''" True Map.empty]
  obtain added where
    r: "cache_set_unified ''2024-01-10'' True Map.empty ''query1'' ''42'' example_columns example_batch =
       Inr (True, if True
            then Map.empty(''seat_id_42'' \<mapsto>
                   \<lparr>columns = example_columns, data = stored_rows Map.empty ''seat_id_42'' @ added\<rparr>)
            else Map.empty)"
    and l: "add_new_rows ''2024-01-10'' 0 1 example_batch
          (stored_rows Map.empty ''seat_id_42'',
           existing_keys 0 1 (stored_rows Map.empty ''seat_id_42'') {}, 0)
         = (stored_rows Map.empty ''seat_id_42'' @ added,
            existing_keys 0 1 (stored_rows Map.empty ''seat_id_42'') {}
              \<union> combo_key 0 1 ` set added,
            length added)"
    and nv: "(\<forall>r\<in>set example_batch. length r > max 0 1 \<and> py_str (r ! 0) < ''2024-01-10''
             \<and> combo_key 0 1 r \<notin> existing_keys 0 1 (stored_rows Map.empty ''seat_id_42'') {})
          \<and> distinct (map (combo_key 0 1) example_batch) \<longrightarrow> added = example_batch"
    by blast
  from nv novel have a: "added = example_batch" by (rule mp)
  have first: "cache_set_unified ''2024-01-10'' True Map.empty ''query1'' ''42'' example_columns example_batch
       = Inr (True, example_db)"
    using r unfolding a s0 by (simp add: example_db_def)
  have firstn: "add_new_rows ''2024-01-10'' 0 1 example_batch ([], {}, 0)
       = (example_batch, {''2024-01-08|T1'', ''2024-01-09|T1''}, 2)"
    using l unfolding a s0 k0 ks len by simp
  from cache_set_unified_returns_write_flag[OF h1 h2 h3 h4, of "''2024-01-10''" True example_db]
  obtain added2 where
    r2: "cache_set_unified ''2024-01-10'' True example_db ''query1'' ''42'' example_columns example_batch =
       Inr (True, if True
            then example_db(''seat_id_42'' \<mapsto>
                   \<lparr>columns = example_columns, data = stored_rows example_db ''seat_id_42'' @ added2\<rparr>)
            else example_db)"
    and l2: "add_new_rows ''2024-01-10'' 0 1 example_batch
          (stored_rows example_db ''seat_id_42'',
           existing_keys 0 1 (stored_rows example_db ''seat_id_42'') {}, 0)
         = (stored_rows example_db ''seat_id_42'' @ added2,
            existing_keys 0 1 (stored_rows example_db ''seat_id_42'') {}
              \<union> combo_key 0 1 ` set added2,
            length added2)"
    and dp: "(\<forall>r\<in>set example_batch. length r > max 0 1 \<and> py_str (r ! 0) < ''2024-01-10''
           \<longrightarrow> combo_key 0 1 r \<in> existing_keys 0 1 (stored_rows example_db ''seat_id_42'') {})
          \<longrightarrow> added2 = []"
    by blast
  from dp dup have a2: "added2 = []" by (rule mp)
  have second: "cache_set_unified ''2024-01-10'' True example_db ''query1'' ''42'' example_columns example_batch
       = Inr (True, example_db)"
    using r2 unfolding a2 s1 by (simp add: example_db_def)
  have secondn: "add_new_rows ''2024-01-10'' 0 1 example_batch
        (example_batch, {''2024-01-08|T1'', ''2024-01-09|T1''}, 0)
       = (example_batch, {''2024-01-08|T1'', ''2024-01-09|T1''}, 0)"
    using l2 unfolding a2 s1 k1 by simp
  from h1 h2 h3 h4 first firstn second secondn show ?thesis by (intro conjI)
qed

subsection \<open>C2: structural validation\<close>

text \<open>
  C2 says a batch with any row of the wrong width is rejected whole. Validation reads
  only the first five rows: a sixth row of three cells under two columns passes, the
  merge returns True and all six rows are stored, the wide one among them.
\<close>

theorem cache_set_unified_accepts_late_bad_row:
  "length (wide_batch ! 5) \<noteq> length [''date_key'', ''tag_id'']
   \<and> cache_set_unified ''2024-01-10'' True Map.empty ''query2'' ''9'' [''date_key'', ''tag_id''] wide_batch
     = Inr (True, Map.empty(''publisher_id_9'' \<mapsto> \<lparr>columns = [''date_key'', ''tag_id''], data = wide_batch\<rparr>))"
  by (simp add: wide_batch_def cache_set_unified_def validate_data_structure_def combo_key_def Let_def)

text \<open>
  C2, amended: for every incoming batch, if any of its first five rows has a width
  different from \<^verbatim>\<open>len(columns)\<close>, the merge returns False and the store is left as it
  was, so no row of the batch is appended.
\<close>

theorem cache_set_unified_rejects_bad_width:
  assumes "generate_cache_key query_type entity_id = Inr cache_key"
    and "\<exists>row\<in>set (take 5 new_data). length row \<noteq> length cols"
  shows "cache_set_unified today write_ok db query_type entity_id cols new_data = Inr (False, db)"
proof -
  from assms(2) have "new_data \<noteq> []" by auto
  with assms(2) have "\<not> validate_data_structure cols new_data"
    by (auto simp: validate_data_structure_def list_all_iff)
  with assms(1) show ?thesis
    by (simp add: cache_set_unified_def del: generate_cache_key.simps)
qed

text \<open>The amended C2 at a batch whose second row has one cell under two columns.\<close>

theorem cache_set_unified_rejects_bad_width_witness:
  "generate_cache_key ''query2'' ''9'' = Inr ''publisher_id_9''
   \<and> (\<exists>row\<in>set (take 5 [[CStr ''2024-01-01'', CStr ''T1''], [CStr ''2024-01-02'']]). length row \<noteq> length [''date_key'', ''tag_id''])
   \<and> cache_set_unified ''2024-01-10'' True example_db ''query2'' ''9'' [''date_key'', ''tag_id'']
        [[CStr ''2024-01-01'', CStr ''T1''], [CStr ''2024-01-02'']] = Inr (False, example_db)"
proof -
  have h1: "generate_cache_key ''query2'' ''9'' = Inr ''publisher_id_9''" by simp
  have h2: "\<exists>row\<in>set (take 5 [[CStr ''2024-01-01'', CStr ''T1''], [CStr ''2024-01-02'']]). length row \<noteq> length [''date_key'', ''tag_id'']"
    by simp
  note r = cache_set_unified_rejects_bad_width[OF h1 h2, of "''2024-01-10''" True example_db]
  show ?thesis by (insert h1 h2 r, intro conjI, assumption+)
qed

subsection \<open>C4: no row dated today or later is stored\<close>




subsection \<open>C5: merging a batch twice\<close>

text \<open>
  C5: merging the same batch into a document twice yields the same stored rows, hence
  the same row count, as merging it once. Whatever the first merge returned and left in
  the store, the second merge (same day, same arguments) returns the same value and
  leaves the store as the first one left it: it appends zero rows, because the key of
  every row that can be appended is already known.
\<close>

theorem cache_set_unified_idempotent:
  assumes r1: "cache_set_unified today write_ok db query_type entity_id cols new_data = Inr (ok, db1)"
  shows "cache_set_unified today write_ok db1 query_type entity_id cols new_data = Inr (ok, db1)"
proof -
  from r1 obtain key where k: "generate_cache_key query_type entity_id = Inr key"
    by (cases "generate_cache_key query_type entity_id")
       (simp_all add: cache_set_unified_def del: generate_cache_key.simps)
  let ?old = "case db key of None \<Rightarrow> [] | Some obj \<Rightarrow> data obj"
  from cache_set_unified_cases[OF k, of today write_ok db cols new_data]
  show ?thesis
  proof
    assume "cache_set_unified today write_ok db query_type entity_id cols new_data = Inr (False, db)"
    with r1 show ?thesis by simp
  next
    assume "\<exists>ti di added. validate_data_structure cols new_data
          \<and> list_index cols ''tag_id'' = Some ti \<and> list_index cols ''date_key'' = Some di
          \<and> cache_set_unified today write_ok db query_type entity_id cols new_data =
             Inr (write_ok, if write_ok then db(key \<mapsto> \<lparr>columns = cols, data = ?old @ added\<rparr>) else db)
          \<and> set added \<subseteq> set new_data
          \<and> (\<forall>r\<in>set added. length r > max di ti \<and> py_str (r ! di) < today)
          \<and> (\<forall>r\<in>set new_data. length r > max di ti \<and> py_str (r ! di) < today
           \<longrightarrow> combo_key di ti r \<in> existing_keys di ti ?old {} \<union> combo_key di ti ` set added)"
    then obtain ti di added where
      v: "validate_data_structure cols new_data"
      and ti: "list_index cols ''tag_id'' = Some ti"
      and di: "list_index cols ''date_key'' = Some di"
      and r: "cache_set_unified today write_ok db query_type entity_id cols new_data =
             Inr (write_ok, if write_ok then db(key \<mapsto> \<lparr>columns = cols, data = ?old @ added\<rparr>) else db)"
      and a: "\<forall>r\<in>set added. length r > max di ti \<and> py_str (r ! di) < today"
      and c: "\<forall>r\<in>set new_data. length r > max di ti \<and> py_str (r ! di) < today
           \<longrightarrow> combo_key di ti r \<in> existing_keys di ti ?old {} \<union> combo_key di ti ` set added"
      by blast
    show ?thesis
    proof (cases write_ok)
      case False
      with r r1 show ?thesis by simp
    next
      case True
      with r r1 have ok: "ok = True"
        and db1: "db1 = db(key \<mapsto> \<lparr>columns = cols, data = ?old @ added\<rparr>)"
        by simp_all
      have keys: "existing_keys di ti (?old @ added) {}
                    = existing_keys di ti ?old {} \<union> combo_key di ti ` set added"
        using a by (auto simp: existing_keys_eq)
      have noop: "add_new_rows today di ti new_data (?old @ added, existing_keys di ti (?old @ added) {}, 0)
          = (?old @ added, existing_keys di ti (?old @ added) {}, 0)"
        by (rule add_new_rows_noop) (use c keys in simp)
      have "cache_set_unified today True db1 query_type entity_id cols new_data = Inr (True, db1)"
        using k v ti di noop
        by (simp add: cache_set_unified_def Let_def db1 del: generate_cache_key.simps)
      with True ok show ?thesis by simp
    qed
  qed
qed

text \<open>C5 at the sample batch: two rows after one merge, the same two after the second.\<close>

theorem cache_set_unified_idempotent_witness:
  "cache_set_unified ''2024-01-10'' True Map.empty ''query1'' ''42'' example_columns example_batch
     = Inr (True, example_db)
   \<and> cache_set_unified ''2024-01-10'' True example_db ''query1'' ''42'' example_columns example_batch
     = Inr (True, example_db)
   \<and> stored_row_count example_db ''seat_id_42'' = 2"
proof -
  note h = example_first_merge
  note r = cache_set_unified_idempotent[OF h]
  have "stored_row_count example_db ''seat_id_42'' = 2"
    by (simp add: stored_row_count_def example_defs)
  with h r show ?thesis by (intro conjI)
qed

section \<open>Properties of the date-range filter\<close>

lemma list_index_None_iff: "list_index xs x = None \<longleftrightarrow> x \<notin> set xs"
  by (induction xs) (auto split: option.splits)

subsection \<open>C10: a document without a date column is returned whole\<close>

text \<open>
  C10: if a cached document's columns do not contain \<^verbatim>\<open>date_key\<close>, the date-range
  filter returns every stored row unchanged, whatever the requested range is, instead of
  an empty result or an error; so rows whose dates (kept under another column name) lie
  outside \<^verbatim>\<open>[date_from, date_to]\<close> reach the caller.
\<close>

theorem filter_cache_data_by_date_range_no_date_key:
  assumes "''date_key'' \<notin> set cols"
  shows "filter_cache_data_by_date_range cols rows date_from date_to = rows"
  using assms by (simp add: filter_cache_data_by_date_range_def list_index_None_iff[symmetric])

text \<open>
  C10 at a document whose date column is named \<^verbatim>\<open>day\<close>: a request for the second week of
  January returns the row of 2023 too. With the column named \<^verbatim>\<open>date_key\<close> the same
  request returns only the row inside the range.
\<close>

theorem filter_cache_data_by_date_range_no_date_key_witness:
  "''date_key'' \<notin> set [''day'', ''tag_id'']
   \<and> filter_cache_data_by_date_range [''day'', ''tag_id'']
        [[CStr ''2023-05-01'', CStr ''T1''], [CStr ''2024-01-09'', CStr ''T1'']]
        ''2024-01-08'' ''2024-01-14''
      = [[CStr ''2023-05-01'', CStr ''T1''], [CStr ''2024-01-09'', CStr ''T1'']]
   \<and> filter_cache_data_by_date_range [''date_key'', ''tag_id'']
        [[CStr ''2023-05-01'', CStr ''T1''], [CStr ''2024-01-09'', CStr ''T1'']]
        ''2024-01-08'' ''2024-01-14''
      = [[CStr ''2024-01-09'', CStr ''T1'']]"
proof -
  have h: "''date_key'' \<notin> set [''day'', ''tag_id'']" by simp
  have "filter_cache_data_by_date_range [''date_key'', ''tag_id'']
        [[CStr ''2023-05-01'', CStr ''T1''], [CStr ''2024-01-09'', CStr ''T1'']]
        ''2024-01-08'' ''2024-01-14''
      = [[CStr ''2024-01-09'', CStr ''T1'']]"
    by (simp add: filter_cache_data_by_date_range_def)
  with h filter_cache_data_by_date_range_no_date_key[OF h] show ?thesis by simp
qed

section \<open>Properties of the planner's chunking\<close>

lemmas date_defs = strptime_def digit_val_def is_digit_def days_in_month_def ymd2ord_def
  days_before_year_def days_before_month_def is_leap_def strftime_def ord2ymd_def pad2_def
  add_days_def max_ordinal_def Let_def

text \<open>
  The loop started at \<open>c\<close> returns the formatted end points of intervals that follow one
  another from \<open>c\<close> to \<open>e\<close> without a gap or an overlap; each is at most 14 days long
  and all but the last are exactly 14 days long.
\<close>

lemma chunk_loop_partition:
  assumes "1 \<le> c" and "e + 13 \<le> max_ordinal"
  shows "\<exists>chunks. chunk_loop c e acc = Inr (acc @ map (\<lambda>(a, b). (strftime a, strftime b)) chunks)
    \<and> concat (map (\<lambda>(a, b). [a..b]) chunks) = [c..e]
    \<and> (\<forall>x\<in>set chunks. fst x \<le> snd x \<and> snd x - fst x \<le> 13)
    \<and> (\<forall>x\<in>set (butlast chunks). snd x - fst x = 13)"
  using assms
proof (induction c e acc rule: chunk_loop.induct)
  case (1 current end_dt ranges)
  show ?case
  proof (cases "current \<le> end_dt")
    case False
    then show ?thesis
      by (intro exI[of _ "[]"]) (simp add: chunk_loop.simps)
  next
    case True
    let ?ce = "min (current + 13) end_dt"
    have a1: "add_days current 13 = Inr (current + 13)"
      using "1.prems" True by (simp add: add_days_def)
    have a2: "add_days ?ce 1 = Inr (?ce + 1)"
      using "1.prems" True by (simp add: add_days_def)
    have "1 \<le> ?ce + 1" using "1.prems" True by simp
    from "1.IH"[OF True a1 refl a2 this "1.prems"(2)]
    obtain chunks where c:
      "chunk_loop (?ce + 1) end_dt (ranges @ [(strftime current, strftime ?ce)])
         = Inr ((ranges @ [(strftime current, strftime ?ce)]) @ map (\<lambda>(a, b). (strftime a, strftime b)) chunks)"
      "concat (map (\<lambda>(a, b). [a..b]) chunks) = [?ce + 1..end_dt]"
      "\<forall>x\<in>set chunks. fst x \<le> snd x \<and> snd x - fst x \<le> 13"
      "\<forall>x\<in>set (butlast chunks). snd x - fst x = 13"
      by blast
    have r: "chunk_loop current end_dt ranges
          = Inr (ranges @ map (\<lambda>(a, b). (strftime a, strftime b)) ((current, ?ce) # chunks))"
      using True a1 a2 c(1) by (subst chunk_loop.simps) (simp add: Let_def)
    have cov: "concat (map (\<lambda>(a, b). [a..b]) ((current, ?ce) # chunks)) = [current..end_dt]"
      using c(2) True upto_split2[of current ?ce end_dt] by simp
    have len: "\<forall>x\<in>set ((current, ?ce) # chunks). fst x \<le> snd x \<and> snd x - fst x \<le> 13"
      using c(3) True by auto
    have full: "\<forall>x\<in>set (butlast ((current, ?ce) # chunks)). snd x - fst x = 13"
    proof (cases "chunks = []")
      case True
      then show ?thesis by simp
    next
      case False
      then obtain x xs where "chunks = x # xs" by (cases chunks) auto
      with c(2,3) have "[?ce + 1..end_dt] \<noteq> []"
        by (cases x) (auto simp: upto_rec1 split: if_splits)
      then have "?ce + 1 \<le> end_dt" by (simp split: if_splits)
      then have "?ce = current + 13" by simp
      with False c(4) show ?thesis by simp
    qed
    from r cov len full show ?thesis by blast
  qed
qed

lemma parse_month_range: "parse_month s = Some m \<Longrightarrow> 1 \<le> m \<and> m \<le> 12"
  by (induction s rule: parse_month.induct) (auto simp: digit_val_def split: if_splits)

lemma parse_day_range: "parse_day s = Some d \<Longrightarrow> 1 \<le> d"
  by (induction s rule: parse_day.induct) (auto simp: digit_val_def is_digit_def split: if_splits)

lemma parse_ymd_range:
  "parse_ymd s = Some (y, m, d) \<Longrightarrow> 1 \<le> m \<and> m \<le> 12 \<and> 1 \<le> d"
proof (induction s rule: parse_ymd.induct)
  case (1 y1 y2 y3 y4 dash rest)
  then show ?case
    by (auto simp: Let_def split: if_splits option.splits
             dest: parse_month_range parse_day_range)
qed simp_all

lemma days_before_year_nonneg: "1 \<le> y \<Longrightarrow> 0 \<le> days_before_year y"
proof -
  assume "1 \<le> y"
  then have "(y - 1) div 100 \<le> (y - 1) div 4" by (intro zdiv_mono2) auto
  moreover have "0 \<le> (y - 1) div 400" using \<open>1 \<le> y\<close> by simp
  moreover have "0 \<le> (y - 1) * 365" using \<open>1 \<le> y\<close> by simp
  ultimately show ?thesis by (simp add: days_before_year_def Let_def)
qed

lemma days_before_month_nonneg: "1 \<le> m \<Longrightarrow> m \<le> 12 \<Longrightarrow> 0 \<le> days_before_month y m"
proof -
  assume "1 \<le> m" "m \<le> 12"
  then have "m = 1 \<or> m = 2 \<or> m = 3 \<or> m = 4 \<or> m = 5 \<or> m = 6 \<or> m = 7 \<or> m = 8
      \<or> m = 9 \<or> m = 10 \<or> m = 11 \<or> m = 12" by arith
  then show ?thesis by (auto simp: days_before_month_def)
qed

lemma strptime_positive:
  assumes "strptime s = Inr d"
  shows "1 \<le> d"
proof -
  from assms obtain y m dd where p: "parse_ymd s = Some (y, m, dd)"
    and y: "1 \<le> y" and d: "d = ymd2ord y m dd"
    by (auto simp: strptime_def split: option.splits if_splits)
  from parse_ymd_range[OF p] have "1 \<le> m" "m \<le> 12" "1 \<le> dd" by auto
  with days_before_year_nonneg[OF y] days_before_month_nonneg[of m y] d
  show ?thesis by (simp add: ymd2ord_def)
qed


lemma example_parse:
  "strptime ''2024-01-01'' = Inr 738886"
  "strptime ''2024-01-22'' = Inr 738907"
  "strptime ''2024-01-23'' = Inr 738908"
  "strptime ''2024-02-09'' = Inr 738925"
  by (simp_all add: date_defs)

lemma example_format:
  "strftime 738886 = ''2024-01-01''"
  "strftime 738899 = ''2024-01-14''"
  "strftime 738900 = ''2024-01-15''"
  "strftime 738913 = ''2024-01-28''"
  "strftime 738914 = ''2024-01-29''"
  "strftime 738925 = ''2024-02-09''"
  "strftime 738908 = ''2024-01-23''"
  by (simp_all add: strftime_def ord2ymd_def Let_def, simp_all add: pad2_def digits.simps)

lemma chunk_loop_step:
  "current \<le> end_dt \<Longrightarrow> 1 \<le> current \<Longrightarrow> end_dt + 13 \<le> max_ordinal \<Longrightarrow>
   chunk_loop current end_dt ranges
     = chunk_loop (min (current + 13) end_dt + 1) end_dt
         (ranges @ [(strftime current, strftime (min (current + 13) end_dt))])"
proof -
  assume a: "current \<le> end_dt" "1 \<le> current" "end_dt + 13 \<le> max_ordinal"
  let ?ce = "min (current + 13) end_dt"
  have a1: "add_days current 13 = Inr (current + 13)"
    using a by (simp add: add_days_def)
  have a2: "add_days ?ce 1 = Inr (?ce + 1)"
    using a by (simp add: add_days_def)
  show ?thesis
    by (subst chunk_loop.simps) (simp only: a a1 a2 if_True sum.case Let_def)
qed

lemma chunk_loop_stop:
  "\<not> current \<le> end_dt \<Longrightarrow> chunk_loop current end_dt ranges = Inr ranges"
  by (subst chunk_loop.simps) simp

lemma forty_day_run:
  "get_date_ranges_to_query ''2024-01-01'' ''2024-02-09''
     = Inr [(''2024-01-01'', ''2024-01-14''), (''2024-01-15'', ''2024-01-28''),
            (''2024-01-29'', ''2024-02-09'')]"
  by (simp add: get_date_ranges_to_query_def example_parse chunk_loop_step chunk_loop_stop
        max_ordinal_def example_format)

subsection \<open>C9: splitting a long run\<close>

text \<open>
  C9 says every run longer than the 21-day ceiling is split. The test is on the
  difference of the end points, \<^verbatim>\<open>(end - start).days <= 21\<close>: the run from 2024-01-01 to
  2024-01-22 has 22 days, a difference of 21, and is returned as one range.
\<close>

theorem get_date_ranges_to_query_keeps_22_days:
  "strptime ''2024-01-01'' = Inr 738886
   \<and> strptime ''2024-01-22'' = Inr 738907
   \<and> 738907 - 738886 + 1 = (22::int)
   \<and> get_date_ranges_to_query ''2024-01-01'' ''2024-01-22'' = Inr [(''2024-01-01'', ''2024-01-22'')]"
  by (simp add: get_date_ranges_to_query_def example_parse)

text \<open>
  C9, amended: a run whose last day is at most 21 days after its first (up to 22 days)
  is returned as one range. A run whose last day is more than 21 days after its first
  is split into sub-ranges that follow one another from its first day to its last
  without a gap or an overlap, each but the last 14 days long and the last between 1
  and 14 days long (the run ends at least 13 days before 9999-12-31, so that no date
  arithmetic overflows). In particular the 40-day run from 2024-01-01 to 2024-02-09 is
  split into exactly 3 ranges of 14, 14 and 12 days.
\<close>

theorem get_date_ranges_to_query_chunks:
  assumes f: "strptime date_from = Inr start"
    and t: "strptime date_to = Inr end_dt"
    and m: "end_dt + 13 \<le> max_ordinal"
  shows "(if end_dt - start \<le> 21
          then get_date_ranges_to_query date_from date_to = Inr [(date_from, date_to)]
          else (\<exists>chunks.
                 get_date_ranges_to_query date_from date_to
                   = Inr (map (\<lambda>(a, b). (strftime a, strftime b)) chunks)
                 \<and> concat (map (\<lambda>(a, b). [a..b]) chunks) = [start..end_dt]
                 \<and> list_all (\<lambda>(a, b). b - a + 1 = 14) (butlast chunks)
                 \<and> 1 \<le> snd (last chunks) - fst (last chunks) + 1
                 \<and> snd (last chunks) - fst (last chunks) + 1 \<le> 14))
         \<and> get_date_ranges_to_query ''2024-01-01'' ''2024-02-09''
             = Inr [(''2024-01-01'', ''2024-01-14''), (''2024-01-15'', ''2024-01-28''),
                    (''2024-01-29'', ''2024-02-09'')]"
proof (cases "end_dt - start \<le> 21")
  case True
  with f t forty_day_run show ?thesis by (simp add: get_date_ranges_to_query_def)
next
  case False
  from chunk_loop_partition[OF strptime_positive[OF f] m, of "[]"]
  obtain chunks where c:
    "chunk_loop start end_dt [] = Inr ([] @ map (\<lambda>(a, b). (strftime a, strftime b)) chunks)"
    "concat (map (\<lambda>(a, b). [a..b]) chunks) = [start..end_dt]"
    "\<forall>x\<in>set chunks. fst x \<le> snd x \<and> snd x - fst x \<le> 13"
    "\<forall>x\<in>set (butlast chunks). snd x - fst x = 13"
    by blast
  from False c(2) have ne: "chunks \<noteq> []" by auto
  then have "last chunks \<in> set chunks" by simp
  with c(3) have l: "1 \<le> snd (last chunks) - fst (last chunks) + 1"
      "snd (last chunks) - fst (last chunks) + 1 \<le> 14" by auto
  from c(4) have b: "list_all (\<lambda>(a, b). b - a + 1 = 14) (butlast chunks)"
    by (auto simp: list_all_iff)
  have "get_date_ranges_to_query date_from date_to
          = Inr (map (\<lambda>(a, b). (strftime a, strftime b)) chunks)"
    using f t False c(1) by (simp add: get_date_ranges_to_query_def)
  with False c(2) b l forty_day_run show ?thesis by auto
qed

text \<open>The amended C9 at the 23-day run from 2024-01-01 to 2024-01-23: 14 days and 9 days.\<close>

theorem get_date_ranges_to_query_chunks_witness:
  "strptime ''2024-01-01'' = Inr 738886
   \<and> strptime ''2024-01-23'' = Inr 738908
   \<and> 738908 + 13 \<le> max_ordinal
   \<and> get_date_ranges_to_query ''2024-01-01'' ''2024-01-23''
       = Inr [(''2024-01-01'', ''2024-01-14''), (''2024-01-15'', ''2024-01-23'')]"
proof -
  have h1: "strptime ''2024-01-01'' = Inr 738886" by (rule example_parse)
  have h2: "strptime ''2024-01-23'' = Inr 738908" by (rule example_parse)
  have h3: "738908 + 13 \<le> max_ordinal" by (simp add: max_ordinal_def)
  have e: "get_date_ranges_to_query ''2024-01-01'' ''2024-01-23''
       = Inr [(''2024-01-01'', ''2024-01-14''), (''2024-01-15'', ''2024-01-23'')]"
    by (simp add: get_date_ranges_to_query_def example_parse chunk_loop_step chunk_loop_stop
        max_ordinal_def example_format)
  from get_date_ranges_to_query_chunks[OF h1 h2 h3] have "get_date_ranges_to_query ''2024-01-01'' ''2024-02-09''
             = Inr [(''2024-01-01'', ''2024-01-14''), (''2024-01-15'', ''2024-01-28''),
                    (''2024-01-29'', ''2024-02-09'')]" by (rule conjunct2)
  with h1 h2 h3 e show ?thesis by (intro conjI)
qed

end
